theory Spec2Isabelle
  imports Complex_Main "HOL-Library.Word"
begin

section \<open>JavaScript values\<close>

text \<open>
  A JavaScript string is a sequence of UTF-16 code units; \<open>length\<close>, \<open>slice\<close> and \<open>===\<close>
  work on code units. \<open>js\<close> embeds an ASCII literal of the source.
\<close>

type_synonym jsstring = "16 word list"

definition js :: "string \<Rightarrow> jsstring" where
  "js s = map (\<lambda>c. of_nat (of_char c)) s"

text \<open>
  The value produced by \<open>response.json()\<close>. An object is the list of its own properties
  (keys distinct after parsing). The program never inspects a number.
\<close>

datatype json =
    JNull
  | JBool bool
  | JNum real
  | JStr jsstring
  | JArr "json list"
  | JObj "(jsstring \<times> json) list"

text \<open>
  Exceptions of the runtime: \<open>FetchError\<close> is the rejection of \<open>fetch\<close> (network failure),
  \<open>SyntaxError\<close> the rejection of \<open>response.json()\<close> on a body that is not JSON,
  \<open>TypeError\<close> a property read on \<open>null\<close> or a call of a value that is not a function.
\<close>

datatype js_error = FetchError | SyntaxError | TypeError

text \<open>The property names that \<open>webSearch.execute\<close> reads.\<close>

datatype field = Results | Title | Url | Content

fun field_name :: "field \<Rightarrow> jsstring" where
  "field_name Results = js ''results''"
| "field_name Title = js ''title''"
| "field_name Url = js ''url''"
| "field_name Content = js ''content''"

text \<open>
  \<open>v.f\<close> for a parsed JSON value \<open>v\<close>: a read on \<open>null\<close> throws; an object yields its own
  property or \<open>undefined\<close> (\<open>None\<close>); booleans, numbers, strings and arrays have none of the
  four names as own or inherited property, so the read yields \<open>undefined\<close>.
\<close>

fun get_field :: "json \<Rightarrow> field \<Rightarrow> js_error + json option" where
  "get_field JNull f = Inl TypeError"
| "get_field (JObj kvs) f = Inr (map_of kvs (field_name f))"
| "get_field (JBool b) f = Inr None"
| "get_field (JNum x) f = Inr None"
| "get_field (JStr s) f = Inr None"
| "get_field (JArr xs) f = Inr None"

section \<open>The webSearch tool\<close>

datatype http_method = GET | POST

record request =
  url :: jsstring
  request_method :: http_method
  headers :: "(jsstring \<times> jsstring) list"
  body :: json

text \<open>
  The template literal \<open>`Bearer ${(this.env as any).TAVILY_API_KEY}`\<close>: an unset secret is
  \<open>undefined\<close> and prints as such.
\<close>

fun bearer :: "jsstring option \<Rightarrow> jsstring" where
  "bearer None = js ''Bearer '' @ js ''undefined''"
| "bearer (Some k) = js ''Bearer '' @ k"

text \<open>
  The arguments of the \<open>fetch\<close> call; \<open>request_method\<close> is the option \<open>method\<close> and
  \<open>body\<close> is the value handed to \<open>JSON.stringify\<close>.
\<close>

definition search_request :: "jsstring option \<Rightarrow> jsstring \<Rightarrow> request" where
  "search_request api_key q =
     \<lparr> url = js ''https://api.tavily.com/search'',
       request_method = POST,
       headers = [(js ''Content-Type'', js ''application/json''),
                  (js ''Authorization'', bearer api_key)],
       body = JObj [(js ''query'', JStr q),
                    (js ''max_results'', JNum 5),
                    (js ''search_depth'', JStr (js ''basic''))] \<rparr>"

text \<open>
  What the provider call comes to: \<open>fetch\<close> rejects, or resolves to a response with a
  status and a body on which \<open>response.json()\<close> rejects (\<open>None\<close>) or yields a value.
\<close>

datatype fetch_outcome = FetchRejected | Responded nat "json option"

record search_item =
  title :: "json option"
  item_url :: "json option"
  content :: "json option"

record tool_output =
  query :: jsstring
  results :: "search_item list"

text \<open>
  \<open>r.content?.slice(0, 500)\<close>: \<open>undefined\<close> and \<open>null\<close> short-circuit to \<open>undefined\<close>; a
  string and an array have \<open>slice\<close>; on any other value \<open>slice\<close> is not a function.
\<close>

fun slice_content :: "json option \<Rightarrow> js_error + json option" where
  "slice_content None = Inr None"
| "slice_content (Some JNull) = Inr None"
| "slice_content (Some (JStr s)) = Inr (Some (JStr (take 500 s)))"
| "slice_content (Some (JArr xs)) = Inr (Some (JArr (take 500 xs)))"
| "slice_content (Some (JBool b)) = Inl TypeError"
| "slice_content (Some (JNum x)) = Inl TypeError"
| "slice_content (Some (JObj kvs)) = Inl TypeError"

text \<open>The callback of \<open>map\<close>, fields read in the order of the object literal.\<close>

definition map_item :: "json \<Rightarrow> js_error + search_item" where
  "map_item r =
     (case get_field r Title of Inl e \<Rightarrow> Inl e | Inr t \<Rightarrow>
       (case get_field r Url of Inl e \<Rightarrow> Inl e | Inr u \<Rightarrow>
         (case get_field r Content of Inl e \<Rightarrow> Inl e | Inr c \<Rightarrow>
           (case slice_content c of Inl e \<Rightarrow> Inl e | Inr c' \<Rightarrow>
              Inr \<lparr> title = t, item_url = u, content = c' \<rparr>))))"

text \<open>\<open>Array.prototype.map\<close> with a callback that may throw: the first exception ends it.\<close>

fun map_results :: "json list \<Rightarrow> js_error + search_item list" where
  "map_results [] = Inr []"
| "map_results (r # rs) =
     (case map_item r of Inl e \<Rightarrow> Inl e | Inr i \<Rightarrow>
       (case map_results rs of Inl e \<Rightarrow> Inl e | Inr is \<Rightarrow> Inr (i # is)))"

text \<open>
  \<open>data.results?.map(...) ?? []\<close>: an absent or \<open>null\<close> \<open>results\<close> short-circuits and the
  default \<open>[]\<close> is taken; an array is mapped; any other value has no callable \<open>map\<close>.
\<close>

fun results_of :: "json option \<Rightarrow> js_error + search_item list" where
  "results_of None = Inr []"
| "results_of (Some JNull) = Inr []"
| "results_of (Some (JArr rs)) = map_results rs"
| "results_of (Some (JBool b)) = Inl TypeError"
| "results_of (Some (JNum x)) = Inl TypeError"
| "results_of (Some (JStr s)) = Inl TypeError"
| "results_of (Some (JObj kvs)) = Inl TypeError"

text \<open>
  \<open>webSearch.execute\<close>. The provider is the function \<open>fetch\<close>; there is no \<open>try\<close> around
  the calls and the status of the response is not read.
\<close>

definition execute :: "(request \<Rightarrow> fetch_outcome) \<Rightarrow> jsstring option \<Rightarrow> jsstring \<Rightarrow> js_error + tool_output" where
  "execute fetch api_key q =
     (case fetch (search_request api_key q) of
        FetchRejected \<Rightarrow> Inl FetchError
      | Responded st None \<Rightarrow> Inl SyntaxError
      | Responded st (Some data) \<Rightarrow>
          (case get_field data Results of Inl e \<Rightarrow> Inl e | Inr rs \<Rightarrow>
            (case results_of rs of Inl e \<Rightarrow> Inl e | Inr items \<Rightarrow>
               Inr \<lparr> query = q, results = items \<rparr>)))"

text \<open>A provider that answers every request with the same outcome.\<close>

definition provider :: "fetch_outcome \<Rightarrow> request \<Rightarrow> fetch_outcome" where
  "provider out req = out"

text \<open>
  Measures used to state the properties of the result: the number of items in the
  \<open>results\<close> array of the provider's answer (none when there is no such array), and the
  size of a returned \<open>content\<close> (\<open>undefined\<close>, a string or an array).
\<close>

fun provided_count :: "fetch_outcome \<Rightarrow> nat" where
  "provided_count (Responded st (Some (JObj kvs))) =
     (case map_of kvs (field_name Results) of Some (JArr rs) \<Rightarrow> length rs | _ \<Rightarrow> 0)"
| "provided_count out = 0"

fun content_within :: "nat \<Rightarrow> json option \<Rightarrow> bool" where
  "content_within n None = True"
| "content_within n (Some (JStr s)) = (length s \<le> n)"
| "content_within n (Some (JArr xs)) = (length xs \<le> n)"
| "content_within n (Some v) = False"

text \<open>A value has no own property \<open>f\<close> (\<open>null\<close> and the primitives have none at all).\<close>

fun lacks :: "field \<Rightarrow> json \<Rightarrow> bool" where
  "lacks f (JObj kvs) = (map_of kvs (field_name f) = None)"
| "lacks f v = True"

text \<open>A result item of the documented shape \<open>{title, url, content}\<close>, all three strings.\<close>

fun item_json :: "jsstring \<times> jsstring \<times> jsstring \<Rightarrow> json" where
  "item_json (t, u, c) =
     JObj [(js ''title'', JStr t), (js ''url'', JStr u), (js ''content'', JStr c)]"

section \<open>Messages and context pruning\<close>

text \<open>
  The conversation of a session: an ordered sequence of messages, each an ordered sequence
  of parts. A tool result carries the id of its call, a structured output or a failure,
  and an approval state.
\<close>

datatype role = User | Assistant | ToolRole

datatype approval = ApprovalRequested | ApprovalApproved | ApprovalRejected | ApprovalCompleted

datatype tool_result = Output json | Failure jsstring

datatype part =
    TextPart jsstring
  | ReasoningPart jsstring bool
  | ToolCallPart jsstring jsstring json
  | ToolResultPart jsstring tool_result approval

record message =
  role :: role
  parts :: "part list"

fun is_tool_payload :: "part \<Rightarrow> bool" where
  "is_tool_payload (ToolCallPart name cid inp) = True"
| "is_tool_payload (ToolResultPart cid res ap) = True"
| "is_tool_payload p = False"

text \<open>The retention rule \<open>"before-last-N-messages"\<close>; the program passes \<open>N = 2\<close>.\<close>

datatype policy = BeforeLastMessages nat

definition strip_tool_payloads :: "message \<Rightarrow> message" where
  "strip_tool_payloads m = m \<lparr> parts := filter (\<lambda>p. \<not> is_tool_payload p) (parts m) \<rparr>"

text \<open>
  Modelled from the spec: \<open>pruneMessages\<close> of the \<open>ai\<close> package, which is imported and not
  part of the sources. The rule keeps full tool-call and tool-result detail only for the
  most recent \<open>N\<close> messages and drops the tool payloads of the earlier ones.
\<close>

fun pruneMessages :: "policy \<Rightarrow> message list \<Rightarrow> message list" where
  "pruneMessages (BeforeLastMessages n) ms =
     map strip_tool_payloads (take (length ms - n) ms) @ drop (length ms - n) ms"

section \<open>The agent\<close>

datatype ztype = ZString

datatype schema = ZObject "(jsstring \<times> ztype) list"

record tool_def =
  description :: jsstring
  inputSchema :: schema
  execute_body :: "((request \<Rightarrow> fetch_outcome) \<Rightarrow> jsstring \<Rightarrow> js_error + tool_output) option"

record agent =
  messages :: "message list"
  TAVILY_API_KEY :: "jsstring option"

text \<open>
  The \<open>tools\<close> object of \<open>onChatMessage\<close>, in the order of its keys. \<open>webSearch\<close> has an
  \<open>execute\<close> function, applied to the \<open>query\<close> of its validated input; \<open>getUserTimezone\<close>
  is declared with a description and an input schema only.
\<close>

definition tools :: "agent \<Rightarrow> (jsstring \<times> tool_def) list" where
  "tools this =
     [(js ''webSearch'',
         \<lparr> description = js ''Search the web for information on a topic. Use this multiple times to research different aspects of the question.'',
           inputSchema = ZObject [(js ''query'', ZString)],
           execute_body = Some (\<lambda>fetch q. execute fetch (TAVILY_API_KEY this) q) \<rparr>),
      (js ''getUserTimezone'',
         \<lparr> description = js ''Get the user's timezone from their browser.'',
           inputSchema = ZObject [],
           execute_body = None \<rparr>)]"

datatype abort_signal = AbortSignal bool

text \<open>
  The argument of \<open>streamText\<close>. The fixed system directive and the \<open>onFinish\<close> callback
  enter no property below and are left out; \<open>stopWhen\<close> holds the \<open>n\<close> of \<open>stepCountIs(n)\<close>.
\<close>

record gen_request =
  model :: jsstring
  gen_messages :: "message list"
  gen_tools :: "(jsstring \<times> tool_def) list"
  stopWhen :: nat
  abortSignal :: "abort_signal option"

text \<open>
  \<open>onChatMessage\<close> with the agent as explicit state: it reads \<open>this.messages\<close> and
  \<open>this.env\<close> and assigns to neither. \<open>convertToModelMessages\<close> (of the \<open>ai\<close> package) is a
  parameter.
\<close>

definition onChatMessage ::
  "(message list \<Rightarrow> message list) \<Rightarrow> agent \<Rightarrow> abort_signal option \<Rightarrow> agent \<times> gen_request" where
  "onChatMessage convertToModelMessages this signal =
     (this,
      \<lparr> model = js ''@cf/meta/llama-3.3-70b-instruct-fp8-fast'',
        gen_messages =
          pruneMessages (BeforeLastMessages 2) (convertToModelMessages (messages this)),
        gen_tools = tools this,
        stopWhen = 10,
        abortSignal = signal \<rparr>)"

section \<open>The client\<close>

record tool_call =
  toolName :: jsstring
  toolCallId :: jsstring

text \<open>
  The event handed to \<open>onToolCall\<close>; \<open>has_addToolOutput\<close> is the test
  \<open>"addToolOutput" in event\<close>.
\<close>

record tool_call_event =
  has_addToolOutput :: bool
  toolCall :: tool_call

text \<open>
  What the browser reports: \<open>Intl.DateTimeFormat().resolvedOptions().timeZone\<close> and
  \<open>new Date().toLocaleTimeString()\<close>.
\<close>

record browser =
  timeZone :: jsstring
  localeTime :: jsstring

record timezone_output =
  output_toolCallId :: jsstring
  timezone :: jsstring
  localTime :: jsstring

text \<open>\<open>onToolCall\<close>: the argument of the call of \<open>addToolOutput\<close>, if it is called.\<close>

definition onToolCall :: "browser \<Rightarrow> tool_call_event \<Rightarrow> timezone_output option" where
  "onToolCall env event =
     (if has_addToolOutput event \<and> toolName (toolCall event) = js ''getUserTimezone''
      then Some \<lparr> output_toolCallId = toolCallId (toolCall event),
                  timezone = timeZone env,
                  localTime = localeTime env \<rparr>
      else None)"

datatype chat_status = StatusReady | StatusSubmitted | StatusStreaming | StatusError

text \<open>
  The state of the \<open>Chat\<close> component that its handlers read. \<open>sent\<close> records the
  arguments of the calls of \<open>sendMessage\<close>, in order.
\<close>

record chat =
  connected :: bool
  input :: jsstring
  status :: chat_status
  promptBubble :: "(nat \<times> jsstring) option"
  shown :: "message list"
  sent :: "message list"

definition isStreaming :: "chat \<Rightarrow> bool" where
  "isStreaming st = (status st = StatusStreaming \<or> status st = StatusSubmitted)"

text \<open>The code units that \<open>String.prototype.trim\<close> removes: white space and line terminators.\<close>

definition is_whitespace :: "16 word \<Rightarrow> bool" where
  "is_whitespace c =
     (c \<in> set [0x0009, 0x000A, 0x000B, 0x000C, 0x000D, 0x0020, 0x00A0, 0x1680,
               0x2000, 0x2001, 0x2002, 0x2003, 0x2004, 0x2005, 0x2006, 0x2007,
               0x2008, 0x2009, 0x200A, 0x2028, 0x2029, 0x202F, 0x205F, 0x3000, 0xFEFF])"

definition trim :: "jsstring \<Rightarrow> jsstring" where
  "trim s = rev (dropWhile is_whitespace (rev (dropWhile is_whitespace s)))"

definition user_text :: "jsstring \<Rightarrow> message" where
  "user_text t = \<lparr> role = User, parts = [TextPart t] \<rparr>"

text \<open>\<open>send\<close>, called on submit of the form and on Enter in the input area.\<close>

definition send :: "chat \<Rightarrow> chat" where
  "send st =
     (let text = trim (input st) in
      if text = [] \<or> isStreaming st then st
      else st \<lparr> input := [], sent := sent st @ [user_text text] \<rparr>)"

text \<open>
  A click on one of the suggestion buttons: they are rendered while no message is shown
  and are disabled while \<open>isStreaming\<close>.
\<close>

definition click_suggestion :: "jsstring \<Rightarrow> chat \<Rightarrow> chat" where
  "click_suggestion prompt st =
     (if shown st \<noteq> [] \<or> isStreaming st then st
      else st \<lparr> sent := sent st @ [user_text prompt] \<rparr>)"

text \<open>
  A click on the prompt bubble: it is rendered whenever \<open>promptBubble\<close> is set, and its
  handler calls \<open>sendMessage\<close> with the text of the bubble.
\<close>

definition click_prompt_bubble :: "chat \<Rightarrow> chat" where
  "click_prompt_bubble st =
     (case promptBubble st of
        None \<Rightarrow> st
      | Some (bid, text) \<Rightarrow> st \<lparr> sent := sent st @ [user_text text] \<rparr>)"

section \<open>Tool execution and the generation loop\<close>

text \<open>The tool calls of a step, in the order emitted: name, call id and input.\<close>

fun tool_calls :: "part list \<Rightarrow> (jsstring \<times> jsstring \<times> json) list" where
  "tool_calls [] = []"
| "tool_calls (ToolCallPart name cid inp # ps) = (name, cid, inp) # tool_calls ps"
| "tool_calls (p # ps) = tool_calls ps"

text \<open>Validation of an input against a schema: an object with a string at every declared key.\<close>

fun conforms :: "schema \<Rightarrow> json \<Rightarrow> bool" where
  "conforms (ZObject fs) (JObj kvs) =
     list_all (\<lambda>(k, t). case map_of kvs k of Some (JStr s) \<Rightarrow> True | _ \<Rightarrow> False) fs"
| "conforms sch v = False"

fun query_of :: "json \<Rightarrow> jsstring" where
  "query_of (JObj kvs) = (case map_of kvs (js ''query'') of Some (JStr q) \<Rightarrow> q | _ \<Rightarrow> [])"
| "query_of v = []"

text \<open>
  A tool output as the structured value of a tool result; a property whose value is
  \<open>undefined\<close> is left out, as serialisation does.
\<close>

fun property :: "jsstring \<Rightarrow> json option \<Rightarrow> (jsstring \<times> json) list" where
  "property k None = []"
| "property k (Some v) = [(k, v)]"

definition item_value :: "search_item \<Rightarrow> json" where
  "item_value i =
     JObj (property (js ''title'') (title i) @ property (js ''url'') (item_url i)
           @ property (js ''content'') (content i))"

definition output_value :: "tool_output \<Rightarrow> json" where
  "output_value out =
     JObj [(js ''query'', JStr (query out)), (js ''results'', JArr (map item_value (results out)))]"

definition timezone_value :: "timezone_output \<Rightarrow> json" where
  "timezone_value tz =
     JObj [(js ''timezone'', JStr (timezone tz)), (js ''localTime'', JStr (localTime tz))]"

text \<open>
  Modelled from the spec: the session channel, which hands a call of a tool without
  server-side body to the client and takes the client's answer. The client is
  \<open>onToolCall\<close> of the sources, on an event that offers \<open>addToolOutput\<close>.
\<close>

definition session_channel :: "browser \<Rightarrow> tool_call \<Rightarrow> timezone_output option" where
  "session_channel env tc = onToolCall env \<lparr> has_addToolOutput = True, toolCall = tc \<rparr>"

text \<open>
  Modelled from the spec: \<open>ToolRegistry.execute\<close>, part of the \<open>ai\<close> package and not of
  the sources. The tool is looked up by name and the input validated against its schema;
  an input that does not conform (or a name that is not declared) gives the tool error
  \<open>InvalidToolInput\<close>. A tool with a body is run on the validated input, and an exception
  of the body is captured as the failure \<open>ToolExecutionError\<close>. A tool without body is
  answered by the client; while the client has not answered there is no result (\<open>None\<close>).
\<close>

fun execute_tool ::
  "(jsstring \<times> tool_def) list \<Rightarrow> (request \<Rightarrow> fetch_outcome) \<Rightarrow> (tool_call \<Rightarrow> timezone_output option) \<Rightarrow>
   jsstring \<times> jsstring \<times> json \<Rightarrow> part option" where
  "execute_tool ts fetch client (name, cid, inp) =
     (case map_of ts name of
        None \<Rightarrow> Some (ToolResultPart cid (Failure (js ''InvalidToolInput'')) ApprovalCompleted)
      | Some td \<Rightarrow>
          if \<not> conforms (inputSchema td) inp
          then Some (ToolResultPart cid (Failure (js ''InvalidToolInput'')) ApprovalCompleted)
          else (case execute_body td of
                  Some run_body \<Rightarrow>
                    (case run_body fetch (query_of inp) of
                       Inl e \<Rightarrow> Some (ToolResultPart cid (Failure (js ''ToolExecutionError'')) ApprovalCompleted)
                     | Inr out \<Rightarrow> Some (ToolResultPart cid (Output (output_value out)) ApprovalCompleted))
                | None \<Rightarrow>
                    (case client \<lparr> toolName = name, toolCallId = cid \<rparr> of
                       None \<Rightarrow> None
                     | Some tz \<Rightarrow>
                         Some (ToolResultPart (output_toolCallId tz) (Output (timezone_value tz))
                                 ApprovalCompleted))))"

text \<open>
  How a run of the loop ends: with the content of its last step as the final answer, with
  a failed generation call, cancelled, or waiting for a result that the client owes.
\<close>

datatype ending = Final "part list" | TransportFailure | Cancelled | AwaitingClient

text \<open>
  A run: the messages of every generation call issued, in order; the messages the
  completed steps appended; and the ending.
\<close>

record run =
  calls :: "message list list"
  appended :: "message list"
  outcome :: ending

fun aborted :: "abort_signal option \<Rightarrow> bool" where
  "aborted None = False"
| "aborted (Some (AbortSignal b)) = b"

text \<open>What a completed step appends: its content, then the results of its tool calls.\<close>

definition step_messages :: "part list \<Rightarrow> part list \<Rightarrow> message list" where
  "step_messages out res =
     \<lparr> role = Assistant, parts = out \<rparr> # (if res = [] then [] else [\<lparr> role = ToolRole, parts = res \<rparr>])"

text \<open>
  Modelled from the spec: the step loop of \<open>streamText\<close> (of the \<open>ai\<close> package, not part of
  the sources). \<open>init\<close> are the messages of the request, \<open>cs\<close> the generation calls issued
  so far and \<open>app\<close> the messages appended so far. A step issues one generation call on
  the messages so far, which fails (\<open>None\<close>) or yields the parts of the step; it then
  executes the tool calls of the step in the order emitted and appends the content and
  the results in that order. The loop ends after a step without tool call or when the
  maximum step count is reached, with the content of that step as the final answer. A
  raised cancellation signal ends it before the next step. \<open>gen\<close> is the hosted model and
  \<open>exec\<close> the execution of one tool call.
\<close>

function step_loop ::
  "nat \<Rightarrow> (message list \<Rightarrow> part list option) \<Rightarrow> (jsstring \<times> jsstring \<times> json \<Rightarrow> part option) \<Rightarrow>
   abort_signal option \<Rightarrow> message list \<Rightarrow> message list list \<Rightarrow> message list \<Rightarrow> run" where
  "step_loop cap gen exec signal init cs app =
     (if aborted signal then \<lparr> calls = cs, appended = app, outcome = Cancelled \<rparr>
      else
        (case gen (init @ app) of
           None \<Rightarrow> \<lparr> calls = cs @ [init @ app], appended = app, outcome = TransportFailure \<rparr>
         | Some out \<Rightarrow>
             (case those (map exec (tool_calls out)) of
                None \<Rightarrow> \<lparr> calls = cs @ [init @ app], appended = app, outcome = AwaitingClient \<rparr>
              | Some res \<Rightarrow>
                  if tool_calls out = [] \<or> cap \<le> Suc (length cs)
                  then \<lparr> calls = cs @ [init @ app], appended = app @ step_messages out res,
                         outcome = Final out \<rparr>
                  else step_loop cap gen exec signal init (cs @ [init @ app])
                         (app @ step_messages out res))))"
  by pat_completeness auto
termination
  by (relation "measure (\<lambda>(cap, gen, exec, signal, init, cs, app). cap - length cs)") auto

text \<open>
  The loop as the request of \<open>onChatMessage\<close> starts it: on the messages of the request
  (pruned once, when the request is built), with its tools, its step bound and its
  cancellation signal, and no step done yet. \<open>fetch\<close> is the search provider and \<open>client\<close>
  the answer of the client to a call it owns.
\<close>

definition streamText ::
  "gen_request \<Rightarrow> (message list \<Rightarrow> part list option) \<Rightarrow> (request \<Rightarrow> fetch_outcome) \<Rightarrow>
   (tool_call \<Rightarrow> timezone_output option) \<Rightarrow> run" where
  "streamText req gen fetch client =
     step_loop (stopWhen req) gen (execute_tool (gen_tools req) fetch client) (abortSignal req)
       (gen_messages req) [] []"

section \<open>The stored history\<close>

text \<open>
  Arrays and message objects live in a store and are passed by reference: an address is
  an index into the store, and allocation extends the store at its end.
\<close>

type_synonym addr = nat

datatype cell = ArrayCell "addr list" | MessageCell message

type_synonym store = "cell list"

definition read_message :: "store \<Rightarrow> addr \<Rightarrow> message option" where
  "read_message \<sigma> a =
     (if a < length \<sigma> then (case \<sigma> ! a of MessageCell m \<Rightarrow> Some m | ArrayCell xs \<Rightarrow> None)
      else None)"

text \<open>The messages that the array at an address holds; \<open>None\<close> for a dangling reference.\<close>

definition read_messages :: "store \<Rightarrow> addr \<Rightarrow> message list option" where
  "read_messages \<sigma> a =
     (if a < length \<sigma>
      then (case \<sigma> ! a of ArrayCell xs \<Rightarrow> those (map (read_message \<sigma>) xs) | MessageCell m \<Rightarrow> None)
      else None)"

text \<open>A new array of new message objects; the result is the new store and the array's address.\<close>

definition alloc_array :: "store \<Rightarrow> message list \<Rightarrow> store \<times> addr" where
  "alloc_array \<sigma> ms =
     (\<sigma> @ map MessageCell ms @ [ArrayCell [length \<sigma> ..< length \<sigma> + length ms]],
      length \<sigma> + length ms)"

text \<open>
  Modelled from the spec: \<open>convertToModelMessages\<close> and \<open>pruneMessages\<close> of the \<open>ai\<close>
  package on the store. The conversion to the wire representation and the pruning each
  read the array they are given and build their result as a new array of new messages;
  the spec has context assembly never mutate the stored history. What the conversion
  computes is the parameter \<open>conv\<close>.
\<close>

definition convertToModelMessages_store ::
  "(message list \<Rightarrow> message list) \<Rightarrow> store \<Rightarrow> addr \<Rightarrow> (store \<times> addr) option" where
  "convertToModelMessages_store conv \<sigma> a =
     (case read_messages \<sigma> a of None \<Rightarrow> None | Some ms \<Rightarrow> Some (alloc_array \<sigma> (conv ms)))"

definition pruneMessages_store :: "policy \<Rightarrow> store \<Rightarrow> addr \<Rightarrow> (store \<times> addr) option" where
  "pruneMessages_store pol \<sigma> a =
     (case read_messages \<sigma> a of None \<Rightarrow> None
      | Some ms \<Rightarrow> Some (alloc_array \<sigma> (pruneMessages pol ms)))"

text \<open>
  The \<open>messages\<close> argument of \<open>onChatMessage\<close> on the store: \<open>this.messages\<close> is the
  reference \<open>a\<close>; it is handed to \<open>convertToModelMessages\<close>, the result to \<open>pruneMessages\<close>,
  and that result to \<open>streamText\<close>. The function assigns to no property of \<open>this\<close>.
\<close>

definition onChatMessage_store ::
  "(message list \<Rightarrow> message list) \<Rightarrow> store \<Rightarrow> addr \<Rightarrow> (store \<times> addr) option" where
  "onChatMessage_store conv \<sigma> a =
     (case convertToModelMessages_store conv \<sigma> a of
        None \<Rightarrow> None
      | Some (\<sigma>1, b) \<Rightarrow> pruneMessages_store (BeforeLastMessages 2) \<sigma>1 b)"

section \<open>Expected values\<close>

text \<open>
  What a result item of the documented shape is turned into, and what an item without
  \<open>content\<close> is turned into: its \<open>title\<close> and \<open>url\<close> as read, and no \<open>content\<close>.
\<close>

fun shaped_item :: "jsstring \<times> jsstring \<times> jsstring \<Rightarrow> search_item" where
  "shaped_item (t, u, c) =
     \<lparr> title = Some (JStr t), item_url = Some (JStr u), content = Some (JStr (take 500 c)) \<rparr>"

definition without_content :: "json \<Rightarrow> search_item" where
  "without_content r =
     \<lparr> title = (case get_field r Title of Inr t \<Rightarrow> t | Inl e \<Rightarrow> None),
       item_url = (case get_field r Url of Inr u \<Rightarrow> u | Inl e \<Rightarrow> None),
       content = None \<rparr>"

text \<open>
  The \<open>content\<close> property of an item as a value (\<open>undefined\<close> when there is none), and the
  contents on which \<open>?.slice(0, 500)\<close> does not throw: \<open>undefined\<close>, \<open>null\<close>, a string
  and an array.
\<close>

fun content_of :: "json \<Rightarrow> json option" where
  "content_of (JObj kvs) = map_of kvs (field_name Content)"
| "content_of v = None"

fun sliceable :: "json option \<Rightarrow> bool" where
  "sliceable None = True"
| "sliceable (Some JNull) = True"
| "sliceable (Some (JStr s)) = True"
| "sliceable (Some (JArr xs)) = True"
| "sliceable (Some v) = False"

section \<open>Sample inputs\<close>

definition sample_item :: json where
  "sample_item =
     item_json (js ''Top CRMs'', js ''https://example.com/crm'', js ''HubSpot and Pipedrive suit small teams.'')"

text \<open>A provider answer with six result items, one more than was asked for.\<close>

definition six_results_body :: json where
  "six_results_body =
     JObj [(js ''results'',
            JArr [sample_item, sample_item, sample_item, sample_item, sample_item, sample_item])]"

text \<open>The body of an error answer of the provider: JSON without \<open>results\<close>.\<close>

definition error_body :: json where
  "error_body = JObj [(js ''detail'', JStr (js ''Unauthorized''))]"

definition sample_output :: search_item where
  "sample_output =
     \<lparr> title = Some (JStr (js ''Top CRMs'')),
       item_url = Some (JStr (js ''https://example.com/crm'')),
       content = Some (JStr (js ''HubSpot and Pipedrive suit small teams.'')) \<rparr>"

text \<open>A result item with a title and a url and no content.\<close>

definition bare_item :: json where
  "bare_item = JObj [(js ''title'', JStr (js ''Top CRMs'')), (js ''url'', JStr (js ''https://example.com/crm''))]"

definition sample_agent :: agent where
  "sample_agent = \<lparr> messages = [], TAVILY_API_KEY = Some (js ''tvly-secret'') \<rparr>"

definition asking_agent :: agent where
  "asking_agent =
     \<lparr> messages = [user_text (js ''Compare CRMs for a 5-person startup.'')],
       TAVILY_API_KEY = Some (js ''tvly-secret'') \<rparr>"

text \<open>A hosted model that asks for one more search in every step.\<close>

definition searching_model :: "message list \<Rightarrow> part list option" where
  "searching_model h =
     Some [ToolCallPart (js ''webSearch'') (js ''call-1'') (JObj [(js ''query'', JStr (js ''crm''))])]"

text \<open>A result item whose content is a number.\<close>

definition numeric_item :: json where
  "numeric_item = JObj [(js ''title'', JStr (js ''Top CRMs'')), (js ''content'', JNum 5)]"

text \<open>A store that holds a history of three messages in the array at address 3.\<close>

definition sample_store :: store where
  "sample_store =
     [MessageCell \<lparr> role = Assistant, parts = [ToolCallPart (js ''webSearch'') (js ''call-1'') JNull] \<rparr>,
      MessageCell (user_text (js ''a'')),
      MessageCell (user_text (js ''b'')),
      ArrayCell [0, 1, 2]]"

definition sample_event :: tool_call_event where
  "sample_event =
     \<lparr> has_addToolOutput = True,
       toolCall = \<lparr> toolName = js ''getUserTimezone'', toolCallId = js ''call-7'' \<rparr> \<rparr>"

definition sample_browser :: browser where
  "sample_browser = \<lparr> timeZone = js ''Europe/Paris'', localeTime = js ''14:05:09'' \<rparr>"

text \<open>
  The chat while the answer to a first message is streaming, with the prompt bubble on
  screen.
\<close>

definition streaming_chat :: chat where
  "streaming_chat =
     \<lparr> connected = True,
       input = js ''and for ten people?'',
       status = StatusStreaming,
       promptBubble = Some (1, js ''Research the future of electric vehicles.''),
       shown = [user_text (js ''Compare CRMs for a 5-person startup.'')],
       sent = [user_text (js ''Compare CRMs for a 5-person startup.'')] \<rparr>"

section \<open>Properties of webSearch\<close>

lemma slice_content_within: "slice_content c = Inr c' \<Longrightarrow> content_within 500 c'"
  by (cases c rule: slice_content.cases) auto

lemma map_item_content: "map_item r = Inr i \<Longrightarrow> content_within 500 (content i)"
  by (auto simp: map_item_def split: sum.splits dest: slice_content_within)

lemma map_results_length: "map_results rs = Inr is \<Longrightarrow> length is = length rs"
  by (induction rs arbitrary: "is") (auto split: sum.splits)

lemma map_results_content:
  "map_results rs = Inr is \<Longrightarrow> i \<in> set is \<Longrightarrow> content_within 500 (content i)"
  by (induction rs arbitrary: "is") (auto split: sum.splits dest: map_item_content)

lemma execute_Inr_cases:
  assumes "execute fetch k q = Inr out"
  obtains st data rs items where
    "fetch (search_request k q) = Responded st (Some data)"
    "get_field data Results = Inr rs" "results_of rs = Inr items"
    "out = \<lparr> query = q, results = items \<rparr>"
  using assms
  by (auto simp: execute_def split: fetch_outcome.splits option.splits sum.splits)

lemma results_of_count:
  assumes "get_field data Results = Inr rs" "results_of rs = Inr items"
  shows "length items = provided_count (Responded st (Some data))"
proof (cases rs)
  case None
  with assms show ?thesis
    by (cases data) (auto split: option.splits json.splits)
next
  case (Some v)
  with assms obtain kvs where d: "data = JObj kvs" "map_of kvs (field_name Results) = Some v"
    by (cases data) auto
  from assms(2) Some d show ?thesis
    by (cases v) (auto dest: map_results_length)
qed

lemma results_of_content:
  assumes "results_of rs = Inr items" "i \<in> set items"
  shows "content_within 500 (content i)"
  using assms by (cases rs rule: results_of.cases) (auto dest: map_results_content)

lemma map_item_sample: "map_item sample_item = Inr sample_output"
  by (simp add: map_item_def sample_item_def sample_output_def js_def)

text \<open>
  C1 (as the claim states it, refuted): when \<open>fetch\<close> rejects, \<open>execute\<close> does not return
  \<open>{query, results: []}\<close>; the rejection is raised to the caller.
\<close>

theorem webSearch_rejection_counterexample:
  "execute (provider FetchRejected) None (js ''crm'') = Inl FetchError"
  by (simp add: execute_def provider_def)

text \<open>
  C1 (amended): whatever the status of the response, a body that parses as JSON and whose
  \<open>results\<close> reads as \<open>undefined\<close> or \<open>null\<close> gives \<open>{query, results: []}\<close>. A rejected
  \<open>fetch\<close> and a body that is not JSON are raised as exceptions.
\<close>

theorem webSearch_failure_handling:
  assumes "fetch (search_request k q) = out"
  shows "(out = FetchRejected \<longrightarrow> execute fetch k q = Inl FetchError)
       \<and> (\<forall>st. out = Responded st None \<longrightarrow> execute fetch k q = Inl SyntaxError)
       \<and> (\<forall>st data. out = Responded st (Some data)
             \<and> (get_field data Results = Inr None \<or> get_field data Results = Inr (Some JNull))
           \<longrightarrow> execute fetch k q = Inr \<lparr> query = q, results = [] \<rparr>)"
  using assms by (auto simp: execute_def)

theorem webSearch_failure_handling_witness:
  "execute (provider FetchRejected) None (js ''crm'') = Inl FetchError
   \<and> execute (provider (Responded 500 None)) None (js ''crm'') = Inl SyntaxError
   \<and> get_field error_body Results = Inr None
   \<and> execute (provider (Responded 401 (Some error_body))) None (js ''crm'')
       = Inr \<lparr> query = js ''crm'', results = [] \<rparr>"
proof -
  have a: "provider FetchRejected (search_request None (js ''crm'')) = FetchRejected"
    by (simp add: provider_def)
  have b: "provider (Responded 500 None) (search_request None (js ''crm'')) = Responded 500 None"
    by (simp add: provider_def)
  have c: "provider (Responded 401 (Some error_body)) (search_request None (js ''crm''))
           = Responded 401 (Some error_body)"
    by (simp add: provider_def)
  have d: "get_field error_body Results = Inr None"
    by (simp add: error_body_def js_def)
  note r = webSearch_failure_handling [where k = None and q = "js ''crm''"]
  from r [where fetch = "provider FetchRejected", OF a]
       r [where fetch = "provider (Responded 500 None)", OF b]
       r [where fetch = "provider (Responded 401 (Some error_body))", OF c] d
  show ?thesis by blast
qed

text \<open>
  C3 (as the claim states it, refuted): the provider answers with six items and \<open>execute\<close>
  returns all six.
\<close>

theorem webSearch_six_results_counterexample:
  "execute (provider (Responded 200 (Some six_results_body))) None (js ''crm'')
     = Inr \<lparr> query = js ''crm'',
             results = [sample_output, sample_output, sample_output,
                        sample_output, sample_output, sample_output] \<rparr>
   \<and> \<not> length [sample_output, sample_output, sample_output,
                 sample_output, sample_output, sample_output] \<le> 5"
  by (simp add: execute_def provider_def six_results_body_def map_item_sample)

text \<open>
  C3 (amended): when \<open>execute\<close> returns, it returns as many results as the \<open>results\<close> array
  of the provider's answer holds, so at most 5 when the provider sent at most 5; and each
  returned \<open>content\<close> is \<open>undefined\<close>, a string of at most 500 code units or an array of at
  most 500 elements.
\<close>

theorem webSearch_result_bounds:
  assumes "execute fetch k q = Inr out"
  shows "length (results out) = provided_count (fetch (search_request k q))
       \<and> (\<forall>i \<in> set (results out). content_within 500 (content i))
       \<and> (provided_count (fetch (search_request k q)) \<le> 5 \<longrightarrow> length (results out) \<le> 5)"
proof -
  from assms obtain st data rs items where
    f: "fetch (search_request k q) = Responded st (Some data)"
    and g: "get_field data Results = Inr rs" and r: "results_of rs = Inr items"
    and o: "out = \<lparr> query = q, results = items \<rparr>"
    by (rule execute_Inr_cases)
  have n: "length (results out) = provided_count (fetch (search_request k q))"
    using results_of_count [OF g r] f o by simp
  have c: "\<forall>i \<in> set (results out). content_within 500 (content i)"
    using results_of_content [OF r] o by simp
  from n c show ?thesis by simp
qed

theorem webSearch_result_bounds_witness:
  "execute (provider (Responded 200 (Some (JObj [(js ''results'', JArr [sample_item])]))))
     None (js ''crm'') = Inr \<lparr> query = js ''crm'', results = [sample_output] \<rparr>
   \<and> provided_count (Responded 200 (Some (JObj [(js ''results'', JArr [sample_item])]))) \<le> 5
   \<and> length [sample_output] \<le> 5
   \<and> content_within 500 (content sample_output)"
proof -
  have e: "execute (provider (Responded 200 (Some (JObj [(js ''results'', JArr [sample_item])]))))
             None (js ''crm'') = Inr \<lparr> query = js ''crm'', results = [sample_output] \<rparr>"
    by (simp add: execute_def provider_def map_item_sample)
  from webSearch_result_bounds [where fetch = "provider (Responded 200 (Some (JObj [(js ''results'', JArr [sample_item])])))", OF e] e
  show ?thesis
    by (simp add: provider_def)
qed

lemma map_item_shaped: "map_item (item_json row) = Inr (shaped_item row)"
  by (cases row) (simp add: map_item_def js_def)

lemma map_results_shaped: "map_results (map item_json rows) = Inr (map shaped_item rows)"
  by (induction rows) (simp_all add: map_item_shaped)

text \<open>
  C9: the request is a POST to the provider whose body is
  \<open>{query, max_results: 5, search_depth: "basic"}\<close>, with a JSON content type and a bearer
  token in the Authorization header; the result of \<open>execute\<close> depends on the provider
  through its answer to that request only; and an answer of the shape
  \<open>{results: [{title, url, content}, ...]}\<close> is read item by item.
\<close>

theorem webSearch_request_and_response:
  "request_method (search_request k q) = POST
   \<and> url (search_request k q) = js ''https://api.tavily.com/search''
   \<and> body (search_request k q)
       = JObj [(js ''query'', JStr q), (js ''max_results'', JNum 5),
               (js ''search_depth'', JStr (js ''basic''))]
   \<and> map_of (headers (search_request k q)) (js ''Content-Type'') = Some (js ''application/json'')
   \<and> map_of (headers (search_request k q)) (js ''Authorization'') = Some (bearer k)
   \<and> bearer (Some secret) = js ''Bearer '' @ secret
   \<and> (fetch (search_request k q) = fetch' (search_request k q)
        \<longrightarrow> execute fetch k q = execute fetch' k q)
   \<and> (fetch (search_request k q)
          = Responded st (Some (JObj [(js ''results'', JArr (map item_json rows))]))
        \<longrightarrow> execute fetch k q = Inr \<lparr> query = q, results = map shaped_item rows \<rparr>)"
  by (simp add: search_request_def execute_def map_results_shaped js_def)

theorem webSearch_request_and_response_witness:
  "body (search_request (Some (js ''tvly-secret'')) (js ''crm''))
     = JObj [(js ''query'', JStr (js ''crm'')), (js ''max_results'', JNum 5),
             (js ''search_depth'', JStr (js ''basic''))]
   \<and> map_of (headers (search_request (Some (js ''tvly-secret'')) (js ''crm''))) (js ''Authorization'')
       = Some (js ''Bearer '' @ js ''tvly-secret'')
   \<and> execute (provider (Responded 200 (Some (JObj [(js ''results'',
          JArr (map item_json [(js ''Top CRMs'', js ''https://example.com/crm'', js ''HubSpot'')]))]))))
        (Some (js ''tvly-secret'')) (js ''crm'')
       = Inr \<lparr> query = js ''crm'',
               results = [\<lparr> title = Some (JStr (js ''Top CRMs'')),
                            item_url = Some (JStr (js ''https://example.com/crm'')),
                            content = Some (JStr (js ''HubSpot'')) \<rparr>] \<rparr>"
  using webSearch_request_and_response
    [where k = "Some (js ''tvly-secret'')" and q = "js ''crm''" and secret = "js ''tvly-secret''"
       and st = 200 and rows = "[(js ''Top CRMs'', js ''https://example.com/crm'', js ''HubSpot'')]"
       and fetch = "provider (Responded 200 (Some (JObj [(js ''results'',
          JArr (map item_json [(js ''Top CRMs'', js ''https://example.com/crm'', js ''HubSpot'')]))])))"
       and fetch' = "provider (Responded 200 (Some (JObj [(js ''results'',
          JArr (map item_json [(js ''Top CRMs'', js ''https://example.com/crm'', js ''HubSpot'')]))])))"]
  by (simp add: provider_def js_def)

lemma get_field_not_null: "v \<noteq> JNull \<Longrightarrow> \<exists>x. get_field v f = Inr x"
  by (cases v) auto

lemma lacks_get_field: "v \<noteq> JNull \<Longrightarrow> lacks f v \<Longrightarrow> get_field v f = Inr None"
  by (cases v) auto

lemma get_field_content_of: "v \<noteq> JNull \<Longrightarrow> get_field v Content = Inr (content_of v)"
  by (cases v) auto

lemma lacks_content_of: "lacks Content v \<Longrightarrow> content_of v = None"
  by (cases v) auto

lemma slice_content_sliceable: "sliceable c \<Longrightarrow> \<exists>c'. slice_content c = Inr c'"
  by (cases c rule: slice_content.cases) auto

lemma map_item_lacks_content:
  assumes "r \<noteq> JNull" "lacks Content r"
  shows "map_item r = Inr (without_content r)"
proof -
  obtain t u where "get_field r Title = Inr t" "get_field r Url = Inr u"
    using get_field_not_null [OF assms(1)] by blast
  moreover have "get_field r Content = Inr None"
    using assms by (rule lacks_get_field)
  ultimately show ?thesis
    by (simp add: map_item_def without_content_def)
qed

lemma map_item_returns:
  assumes "r \<noteq> JNull" "sliceable (content_of r)"
  shows "\<exists>i. map_item r = Inr i"
proof -
  obtain t u where "get_field r Title = Inr t" "get_field r Url = Inr u"
    using get_field_not_null [OF assms(1)] by blast
  moreover obtain c' where "slice_content (content_of r) = Inr c'"
    using slice_content_sliceable [OF assms(2)] by blast
  ultimately show ?thesis
    using get_field_content_of [OF assms(1)] by (simp add: map_item_def)
qed

lemma map_results_returns:
  "\<forall>r \<in> set rs. r \<noteq> JNull \<and> sliceable (content_of r) \<Longrightarrow>
   \<exists>items. map_results rs = Inr items \<and> length items = length rs
      \<and> (\<forall>n < length rs. lacks Content (rs ! n) \<longrightarrow> items ! n = without_content (rs ! n))"
proof (induction rs)
  case Nil
  then show ?case by simp
next
  case (Cons r rs)
  then obtain items where items: "map_results rs = Inr items" "length items = length rs"
    "\<forall>n < length rs. lacks Content (rs ! n) \<longrightarrow> items ! n = without_content (rs ! n)"
    by auto
  from Cons.prems have r: "r \<noteq> JNull" "sliceable (content_of r)" by simp_all
  then obtain i where i: "map_item r = Inr i"
    using map_item_returns by blast
  have w: "lacks Content r \<longrightarrow> i = without_content r"
    using map_item_lacks_content [OF r(1)] i by auto
  have "\<forall>n < length (r # rs). lacks Content ((r # rs) ! n) \<longrightarrow> (i # items) ! n = without_content ((r # rs) ! n)"
  proof (intro allI impI)
    fix n assume "n < length (r # rs)" "lacks Content ((r # rs) ! n)"
    then show "(i # items) ! n = without_content ((r # rs) ! n)"
      using w items(3) by (cases n) auto
  qed
  with i items(1,2) show ?case by simp
qed

text \<open>
  C10 (as the claim states it, refuted): the body \<open>null\<close> parses as JSON and has no
  \<open>results\<close> field, and \<open>execute\<close> raises a TypeError on it; so it does on a \<open>null\<close> item,
  which has no \<open>content\<close> field, and on an item without \<open>content\<close> that stands beside an
  item whose \<open>content\<close> is a number.
\<close>

theorem webSearch_null_body_counterexample:
  "lacks Results JNull
   \<and> execute (provider (Responded 200 (Some JNull))) None (js ''crm'') = Inl TypeError
   \<and> lacks Content JNull
   \<and> execute (provider (Responded 200 (Some (JObj [(js ''results'', JArr [JNull])])))) None (js ''crm'')
       = Inl TypeError
   \<and> lacks Content bare_item
   \<and> execute (provider (Responded 200 (Some (JObj [(js ''results'', JArr [bare_item, numeric_item])]))))
        None (js ''crm'') = Inl TypeError"
  by (simp add: execute_def provider_def map_item_def bare_item_def numeric_item_def js_def)

text \<open>
  C10 (amended): for a body that parses as a JSON value other than \<open>null\<close>, an absent
  \<open>results\<close> field gives \<open>{query, results: []}\<close>; and when \<open>results\<close> is an array whose
  items are not \<open>null\<close> and each have a \<open>content\<close> that is absent, \<open>null\<close>, a string or an
  array, \<open>execute\<close> raises nothing and returns one result for each item, in order, where
  every item without \<open>content\<close> field is returned with its \<open>title\<close> and \<open>url\<close> and an
  undefined \<open>content\<close>.
\<close>

theorem webSearch_missing_fields:
  assumes "fetch (search_request k q) = Responded st (Some data)" and "data \<noteq> JNull"
  shows "(lacks Results data \<longrightarrow> execute fetch k q = Inr \<lparr> query = q, results = [] \<rparr>)
       \<and> (\<forall>rs. get_field data Results = Inr (Some (JArr rs))
                \<and> (\<forall>r \<in> set rs. r \<noteq> JNull \<and> sliceable (content_of r))
            \<longrightarrow> (\<exists>items. execute fetch k q = Inr \<lparr> query = q, results = items \<rparr>
                    \<and> length items = length rs
                    \<and> (\<forall>n < length rs. lacks Content (rs ! n)
                          \<longrightarrow> items ! n = without_content (rs ! n))))"
proof (intro conjI allI impI)
  assume "lacks Results data"
  with assms show "execute fetch k q = Inr \<lparr> query = q, results = [] \<rparr>"
    by (simp add: execute_def lacks_get_field)
next
  fix rs
  assume h: "get_field data Results = Inr (Some (JArr rs))
             \<and> (\<forall>r \<in> set rs. r \<noteq> JNull \<and> sliceable (content_of r))"
  then obtain items where "map_results rs = Inr items" "length items = length rs"
    "\<forall>n < length rs. lacks Content (rs ! n) \<longrightarrow> items ! n = without_content (rs ! n)"
    using map_results_returns [of rs] by blast
  with assms(1) h
  show "\<exists>items. execute fetch k q = Inr \<lparr> query = q, results = items \<rparr>
          \<and> length items = length rs
          \<and> (\<forall>n < length rs. lacks Content (rs ! n) \<longrightarrow> items ! n = without_content (rs ! n))"
    by (simp add: execute_def)
qed

theorem webSearch_missing_fields_witness:
  "error_body \<noteq> JNull \<and> lacks Results error_body
   \<and> execute (provider (Responded 200 (Some error_body))) None (js ''crm'')
       = Inr \<lparr> query = js ''crm'', results = [] \<rparr>
   \<and> bare_item \<noteq> JNull \<and> sliceable (content_of bare_item)
   \<and> sample_item \<noteq> JNull \<and> sliceable (content_of sample_item)
   \<and> lacks Content bare_item
   \<and> execute (provider (Responded 200 (Some (JObj [(js ''results'', JArr [bare_item, sample_item])]))))
        None (js ''crm'')
       = Inr \<lparr> query = js ''crm'',
               results = [\<lparr> title = Some (JStr (js ''Top CRMs'')),
                            item_url = Some (JStr (js ''https://example.com/crm'')),
                            content = None \<rparr>,
                          sample_output] \<rparr>"
proof -
  have a: "provider (Responded 200 (Some error_body)) (search_request None (js ''crm''))
           = Responded 200 (Some error_body)"
    by (simp add: provider_def)
  have b: "provider (Responded 200 (Some (JObj [(js ''results'', JArr [bare_item, sample_item])])))
             (search_request None (js ''crm''))
           = Responded 200 (Some (JObj [(js ''results'', JArr [bare_item, sample_item])]))"
    by (simp add: provider_def)
  have n: "error_body \<noteq> JNull" "JObj [(js ''results'', JArr [bare_item, sample_item])] \<noteq> JNull"
    by (simp_all add: error_body_def)
  have l: "lacks Results error_body" "lacks Content bare_item"
    "\<forall>r \<in> set [bare_item, sample_item]. r \<noteq> JNull \<and> sliceable (content_of r)"
    by (simp_all add: error_body_def bare_item_def sample_item_def js_def)
  have g: "get_field (JObj [(js ''results'', JArr [bare_item, sample_item])]) Results
           = Inr (Some (JArr [bare_item, sample_item]))"
    by simp
  have w: "without_content bare_item
           = \<lparr> title = Some (JStr (js ''Top CRMs'')),
               item_url = Some (JStr (js ''https://example.com/crm'')), content = None \<rparr>"
    by (simp add: without_content_def bare_item_def js_def)
  note r = webSearch_missing_fields [where k = None and q = "js ''crm''" and st = 200]
  from r [where fetch = "provider (Responded 200 (Some error_body))", OF a n(1)] l(1)
  have 1: "execute (provider (Responded 200 (Some error_body))) None (js ''crm'')
           = Inr \<lparr> query = js ''crm'', results = [] \<rparr>"
    by blast
  from r [where fetch = "provider (Responded 200 (Some (JObj [(js ''results'', JArr [bare_item, sample_item])])))",
          OF b n(2)] g l(3)
  obtain items where i: "execute (provider (Responded 200 (Some (JObj [(js ''results'', JArr [bare_item, sample_item])]))))
             None (js ''crm'') = Inr \<lparr> query = js ''crm'', results = items \<rparr>"
     "length items = length [bare_item, sample_item]"
     "\<forall>n < length [bare_item, sample_item]. lacks Content ([bare_item, sample_item] ! n)
         \<longrightarrow> items ! n = without_content ([bare_item, sample_item] ! n)"
    by blast
  from i(3) l(2) have "items ! 0 = without_content bare_item" by auto
  moreover have "execute (provider (Responded 200 (Some (JObj [(js ''results'', JArr [bare_item, sample_item])]))))
             None (js ''crm'') = Inr \<lparr> query = js ''crm'', results = [without_content bare_item, sample_output] \<rparr>"
    using map_item_lacks_content [of bare_item] l(2)
    by (simp add: execute_def provider_def map_item_sample bare_item_def)
  moreover have "bare_item \<noteq> JNull \<and> sliceable (content_of bare_item)
      \<and> sample_item \<noteq> JNull \<and> sliceable (content_of sample_item)"
    using l(3) by simp
  ultimately show ?thesis using 1 n l(1,2) w by simp
qed

section \<open>Properties of context pruning\<close>

lemma strip_tool_payloads_idem:
  "strip_tool_payloads (strip_tool_payloads m) = strip_tool_payloads m"
  by (simp add: strip_tool_payloads_def)

lemma length_pruneMessages: "length (pruneMessages p ms) = length ms"
  by (cases p) simp

text \<open>
  C5: pruning is idempotent, for every message sequence and every policy; the policy
  \<open>"before-last-2-messages"\<close> is \<open>BeforeLastMessages 2\<close>.
\<close>

theorem pruneMessages_idempotent:
  "pruneMessages p (pruneMessages p ms) = pruneMessages p ms"
proof (cases p)
  case (BeforeLastMessages n)
  define k where "k = length ms - n"
  have k: "k \<le> length ms" by (simp add: k_def)
  have len: "length (map strip_tool_payloads (take k ms)) = k"
    using k by simp
  have pr: "pruneMessages p ms = map strip_tool_payloads (take k ms) @ drop k ms"
    by (simp add: BeforeLastMessages k_def)
  have l: "length (pruneMessages p ms) - n = k"
    by (simp add: length_pruneMessages k_def)
  have "pruneMessages p (pruneMessages p ms)
        = map strip_tool_payloads (take k (pruneMessages p ms)) @ drop k (pruneMessages p ms)"
    using l by (simp add: BeforeLastMessages)
  also have "take k (pruneMessages p ms) = map strip_tool_payloads (take k ms)"
    unfolding pr using len by simp
  also have "drop k (pruneMessages p ms) = drop k ms"
    unfolding pr using len by simp
  also have "map strip_tool_payloads (map strip_tool_payloads (take k ms))
             = map strip_tool_payloads (take k ms)"
    by (simp add: strip_tool_payloads_idem)
  finally show ?thesis by (simp add: pr)
qed

section \<open>Properties of the stored history\<close>

lemma those_map_Some: "those (map Some xs) = Some xs"
  by (induction xs) auto

lemma those_Some_all: "those ys = Some xs \<Longrightarrow> y \<in> set ys \<Longrightarrow> y \<noteq> None"
  by (induction ys arbitrary: xs) (auto split: option.splits)

lemma read_message_valid: "read_message \<sigma> a \<noteq> None \<Longrightarrow> a < length \<sigma>"
  by (simp add: read_message_def split: if_splits)

lemma read_message_agree:
  assumes "a < length \<sigma>" "length \<sigma> \<le> length \<sigma>'" "\<forall>x < length \<sigma>. \<sigma>' ! x = \<sigma> ! x"
  shows "read_message \<sigma>' a = read_message \<sigma> a"
  using assms by (simp add: read_message_def)

lemma read_messages_agree:
  assumes r: "read_messages \<sigma> a = Some ms"
    and l: "length \<sigma> \<le> length \<sigma>'" and e: "\<forall>x < length \<sigma>. \<sigma>' ! x = \<sigma> ! x"
  shows "read_messages \<sigma>' a = Some ms"
proof -
  from r have a: "a < length \<sigma>" by (simp add: read_messages_def split: if_splits)
  from r a obtain xs where xs: "\<sigma> ! a = ArrayCell xs" "those (map (read_message \<sigma>) xs) = Some ms"
    by (cases "\<sigma> ! a") (simp_all add: read_messages_def)
  have "\<forall>x \<in> set xs. read_message \<sigma> x \<noteq> None"
    using those_Some_all [OF xs(2)] by auto
  then have "\<forall>x \<in> set xs. x < length \<sigma>"
    using read_message_valid by blast
  then have m: "map (read_message \<sigma>') xs = map (read_message \<sigma>) xs"
    using l e by (intro map_cong) (auto intro: read_message_agree)
  have "read_messages \<sigma>' a = those (map (read_message \<sigma>') xs)"
    using a l e xs(1) by (simp add: read_messages_def)
  also have "\<dots> = Some ms"
    unfolding m by (rule xs(2))
  finally show ?thesis .
qed

lemma alloc_array_frame:
  assumes "alloc_array \<sigma> ms = (\<sigma>', v)"
  shows "length \<sigma> \<le> v \<and> v < length \<sigma>' \<and> (\<forall>x < length \<sigma>. \<sigma>' ! x = \<sigma> ! x)"
  using assms by (auto simp: alloc_array_def nth_append)

lemma alloc_array_read:
  assumes "alloc_array \<sigma> ms = (\<sigma>', v)"
  shows "read_messages \<sigma>' v = Some ms"
proof -
  from assms have s: "\<sigma>' = \<sigma> @ map MessageCell ms @ [ArrayCell [length \<sigma> ..< length \<sigma> + length ms]]"
    and v: "v = length \<sigma> + length ms"
    by (auto simp: alloc_array_def)
  have c: "\<sigma>' ! v = ArrayCell [length \<sigma> ..< length \<sigma> + length ms]"
    by (simp add: s v nth_append)
  have "map (read_message \<sigma>') [length \<sigma> ..< length \<sigma> + length ms] = map Some ms"
  proof (rule nth_equalityI)
    show "length (map (read_message \<sigma>') [length \<sigma> ..< length \<sigma> + length ms]) = length (map Some ms)"
      by simp
  next
    fix i assume "i < length (map (read_message \<sigma>') [length \<sigma> ..< length \<sigma> + length ms])"
    then have i: "i < length ms" by simp
    then have "\<sigma>' ! (length \<sigma> + i) = MessageCell (ms ! i)"
      by (simp add: s nth_append)
    with i show "map (read_message \<sigma>') [length \<sigma> ..< length \<sigma> + length ms] ! i = map Some ms ! i"
      by (simp add: s read_message_def)
  qed
  then have "those (map (read_message \<sigma>') [length \<sigma> ..< length \<sigma> + length ms]) = Some ms"
    by (simp add: those_map_Some)
  with c show ?thesis by (simp add: v s read_messages_def)
qed

text \<open>
  C7: on the store, building the request leaves every cell that existed before as it was,
  so the array \<open>this.messages\<close> and its messages still hold the full history; the array
  handed to the generation call is a new one and holds the pruned view, which is a
  function of the history, the conversion and the policy alone; and no later write to a
  cell allocated for the view changes the stored history.
\<close>

theorem pruning_leaves_stored_history:
  assumes "read_messages \<sigma> a = Some hist"
  shows "\<exists>\<sigma>' v. onChatMessage_store conv \<sigma> a = Some (\<sigma>', v)
          \<and> length \<sigma> \<le> v \<and> v < length \<sigma>'
          \<and> (\<forall>x < length \<sigma>. \<sigma>' ! x = \<sigma> ! x)
          \<and> read_messages \<sigma>' a = Some hist
          \<and> read_messages \<sigma>' v = Some (pruneMessages (BeforeLastMessages 2) (conv hist))
          \<and> read_messages \<sigma>' v
              = Some (gen_messages (snd (onChatMessage conv \<lparr> messages = hist, TAVILY_API_KEY = key \<rparr> sig)))
          \<and> (\<forall>x c. length \<sigma> \<le> x \<longrightarrow> read_messages (\<sigma>'[x := c]) a = Some hist)"
proof -
  obtain \<sigma>1 b where c: "alloc_array \<sigma> (conv hist) = (\<sigma>1, b)"
    by (cases "alloc_array \<sigma> (conv hist)")
  obtain \<sigma>2 v where p: "alloc_array \<sigma>1 (pruneMessages (BeforeLastMessages 2) (conv hist)) = (\<sigma>2, v)"
    by (cases "alloc_array \<sigma>1 (pruneMessages (BeforeLastMessages 2) (conv hist))")
  note f1 = alloc_array_frame [OF c] and f2 = alloc_array_frame [OF p]
  have rb: "read_messages \<sigma>1 b = Some (conv hist)"
    using c by (rule alloc_array_read)
  have run: "onChatMessage_store conv \<sigma> a = Some (\<sigma>2, v)"
    using assms c rb p
    by (simp add: onChatMessage_store_def convertToModelMessages_store_def pruneMessages_store_def)
  have len: "length \<sigma> \<le> length \<sigma>1" "length \<sigma>1 \<le> length \<sigma>2"
    using f1 f2 by simp_all
  have frame: "\<forall>x < length \<sigma>. \<sigma>2 ! x = \<sigma> ! x"
    using f1 f2 len by simp
  have fresh: "length \<sigma> \<le> v" "v < length \<sigma>2"
    using f1 f2 len by simp_all
  have hist: "read_messages \<sigma>2 a = Some hist"
    using len by (intro read_messages_agree [OF assms _ frame]) simp
  have view: "read_messages \<sigma>2 v
              = Some (gen_messages (snd (onChatMessage conv \<lparr> messages = hist, TAVILY_API_KEY = key \<rparr> sig)))"
    using alloc_array_read [OF p] by (simp add: onChatMessage_def)
  have later: "\<forall>x c. length \<sigma> \<le> x \<longrightarrow> read_messages (\<sigma>2[x := c]) a = Some hist"
  proof (intro allI impI)
    fix x c assume x: "length \<sigma> \<le> x"
    have "\<forall>y < length \<sigma>. (\<sigma>2[x := c]) ! y = \<sigma> ! y"
      using frame x by simp
    then show "read_messages (\<sigma>2[x := c]) a = Some hist"
      using len by (intro read_messages_agree [OF assms]) simp_all
  qed
  have view': "read_messages \<sigma>2 v = Some (pruneMessages (BeforeLastMessages 2) (conv hist))"
    using p by (rule alloc_array_read)
  from run fresh frame hist view' view later show ?thesis
    by blast
qed

theorem pruning_leaves_stored_history_witness:
  "read_messages sample_store 3
     = Some [\<lparr> role = Assistant, parts = [ToolCallPart (js ''webSearch'') (js ''call-1'') JNull] \<rparr>,
             user_text (js ''a''), user_text (js ''b'')]
   \<and> (\<exists>\<sigma>' v. onChatMessage_store (\<lambda>ms. ms) sample_store 3 = Some (\<sigma>', v)
        \<and> length sample_store \<le> v
        \<and> read_messages \<sigma>' 3
            = Some [\<lparr> role = Assistant, parts = [ToolCallPart (js ''webSearch'') (js ''call-1'') JNull] \<rparr>,
                    user_text (js ''a''), user_text (js ''b'')]
        \<and> read_messages \<sigma>' v
            = Some [\<lparr> role = Assistant, parts = [] \<rparr>, user_text (js ''a''), user_text (js ''b'')])"
proof -
  define hist where "hist = [\<lparr> role = Assistant, parts = [ToolCallPart (js ''webSearch'') (js ''call-1'') JNull] \<rparr>,
             user_text (js ''a''), user_text (js ''b'')]"
  have h: "read_messages sample_store 3 = Some hist"
    by (simp add: read_messages_def read_message_def sample_store_def hist_def)
  have p: "pruneMessages (BeforeLastMessages 2) hist
           = [\<lparr> role = Assistant, parts = [] \<rparr>, user_text (js ''a''), user_text (js ''b'')]"
    by (simp add: strip_tool_payloads_def hist_def)
  from pruning_leaves_stored_history [OF h, of "\<lambda>ms. ms"]
  obtain \<sigma>' v where r: "onChatMessage_store (\<lambda>ms. ms) sample_store 3 = Some (\<sigma>', v)"
    "length sample_store \<le> v" "read_messages \<sigma>' 3 = Some hist"
    "read_messages \<sigma>' v = Some (pruneMessages (BeforeLastMessages 2) hist)"
    by blast
  from r(4) have v: "read_messages \<sigma>' v
       = Some [\<lparr> role = Assistant, parts = [] \<rparr>, user_text (js ''a''), user_text (js ''b'')]"
    by (simp only: p)
  have "\<exists>\<sigma>' v. onChatMessage_store (\<lambda>ms. ms) sample_store 3 = Some (\<sigma>', v)
        \<and> length sample_store \<le> v
        \<and> read_messages \<sigma>' 3 = Some hist
        \<and> read_messages \<sigma>' v
            = Some [\<lparr> role = Assistant, parts = [] \<rparr>, user_text (js ''a''), user_text (js ''b'')]"
    using r(1,2,3) v by blast
  with h show ?thesis
    unfolding hist_def by (rule conjI)
qed

section \<open>Properties of the generation loop\<close>

lemma those_map_total: "\<forall>x. f x \<noteq> None \<Longrightarrow> \<exists>ys. those (map f xs) = Some ys"
proof (induction xs)
  case Nil
  then show ?case by simp
next
  case (Cons x xs)
  then obtain ys where "those (map f xs) = Some ys" by blast
  moreover from Cons.prems obtain y where "f x = Some y" by blast
  ultimately show ?case by simp
qed

lemma step_loop_calls_bound:
  "length (calls (step_loop cap gen exec signal init cs app)) \<le> max cap (Suc (length cs))"
proof (induction cap gen exec signal init cs app rule: step_loop.induct)
  case (1 cap gen exec signal init cs app)
  show ?case
  proof (cases "aborted signal")
    case True
    then show ?thesis by simp
  next
    case na: False
    show ?thesis
    proof (cases "gen (init @ app)")
      case None
      with na show ?thesis by simp
    next
      case (Some out)
      show ?thesis
      proof (cases "those (map exec (tool_calls out))")
        case None
        with na Some show ?thesis by simp
      next
        case res: (Some res)
        show ?thesis
        proof (cases "tool_calls out = [] \<or> cap \<le> Suc (length cs)")
          case True
          with na Some res show ?thesis by auto
        next
          case False
          from "1.IH" [OF na Some res False] na Some res False show ?thesis by auto
        qed
      qed
    qed
  qed
qed

lemma step_loop_final:
  "outcome (step_loop cap gen exec signal init cs app) = Final out \<Longrightarrow>
   calls (step_loop cap gen exec signal init cs app) \<noteq> []
   \<and> gen (last (calls (step_loop cap gen exec signal init cs app))) = Some out
   \<and> (\<exists>res pre. those (map exec (tool_calls out)) = Some res
         \<and> appended (step_loop cap gen exec signal init cs app) = pre @ step_messages out res)"
proof (induction cap gen exec signal init cs app rule: step_loop.induct)
  case (1 cap gen exec signal init cs app)
  show ?case
  proof (cases "aborted signal")
    case True
    with "1.prems" show ?thesis by simp
  next
    case na: False
    show ?thesis
    proof (cases "gen (init @ app)")
      case None
      with na "1.prems" show ?thesis by simp
    next
      case (Some out')
      show ?thesis
      proof (cases "those (map exec (tool_calls out'))")
        case None
        with na Some "1.prems" show ?thesis by simp
      next
        case res: (Some res)
        show ?thesis
        proof (cases "tool_calls out' = [] \<or> cap \<le> Suc (length cs)")
          case True
          with na Some res "1.prems" show ?thesis by auto
        next
          case False
          from "1.IH" [OF na Some res False] "1.prems" na Some res False show ?thesis by auto
        qed
      qed
    qed
  qed
qed

lemma step_loop_failure:
  "outcome (step_loop cap gen exec signal init cs app) = TransportFailure \<Longrightarrow>
   calls (step_loop cap gen exec signal init cs app) \<noteq> []
   \<and> gen (last (calls (step_loop cap gen exec signal init cs app))) = None"
proof (induction cap gen exec signal init cs app rule: step_loop.induct)
  case (1 cap gen exec signal init cs app)
  show ?case
  proof (cases "aborted signal")
    case True
    with "1.prems" show ?thesis by simp
  next
    case na: False
    show ?thesis
    proof (cases "gen (init @ app)")
      case None
      with na "1.prems" show ?thesis by simp
    next
      case (Some out')
      show ?thesis
      proof (cases "those (map exec (tool_calls out'))")
        case None
        with na Some "1.prems" show ?thesis by simp
      next
        case res: (Some res)
        show ?thesis
        proof (cases "tool_calls out' = [] \<or> cap \<le> Suc (length cs)")
          case True
          with na Some res "1.prems" show ?thesis by auto
        next
          case False
          from "1.IH" [OF na Some res False] "1.prems" na Some res False show ?thesis by auto
        qed
      qed
    qed
  qed
qed

lemma step_loop_first_call:
  "\<not> aborted signal \<Longrightarrow>
   \<exists>ds. calls (step_loop cap gen exec signal init cs app) = cs @ (init @ app) # ds"
proof (induction cap gen exec signal init cs app rule: step_loop.induct)
  case (1 cap gen exec signal init cs app)
  note na = "1.prems"
  show ?case
  proof (cases "gen (init @ app)")
    case None
    with na show ?thesis by simp
  next
    case (Some out')
    show ?thesis
    proof (cases "those (map exec (tool_calls out'))")
      case None
      with na Some show ?thesis by simp
    next
      case res: (Some res)
      show ?thesis
      proof (cases "tool_calls out' = [] \<or> cap \<le> Suc (length cs)")
        case True
        with na Some res show ?thesis by auto
      next
        case False
        from "1.IH" [OF na Some res False na] na Some res False show ?thesis by auto
      qed
    qed
  qed
qed

lemma step_loop_cancelled:
  "aborted signal \<Longrightarrow> step_loop cap gen exec signal init cs app
     = \<lparr> calls = cs, appended = app, outcome = Cancelled \<rparr>"
  by simp

lemma step_loop_completes:
  assumes "\<not> aborted signal" "\<forall>h. gen h \<noteq> None" "\<forall>c. exec c \<noteq> None"
  shows "\<exists>out. outcome (step_loop cap gen exec signal init cs app) = Final out"
  using assms
proof (induction cap gen exec signal init cs app rule: step_loop.induct)
  case (1 cap gen exec signal init cs app)
  note na = "1.prems"(1)
  from "1.prems"(2) obtain out' where Some: "gen (init @ app) = Some out'" by auto
  from "1.prems"(3) obtain res where res: "those (map exec (tool_calls out')) = Some res"
    using those_map_total [of exec "tool_calls out'"] by blast
  show ?case
  proof (cases "tool_calls out' = [] \<or> cap \<le> Suc (length cs)")
    case True
    with na Some res show ?thesis by auto
  next
    case False
    from "1.IH" [OF na Some res False "1.prems"] na Some res False show ?thesis by auto
  qed
qed

lemma step_loop_reaches_cap:
  assumes "\<not> aborted signal" "\<forall>h. \<exists>out. gen h = Some out \<and> tool_calls out \<noteq> []"
    "\<forall>c. exec c \<noteq> None" "length cs < cap"
  shows "length (calls (step_loop cap gen exec signal init cs app)) = cap"
  using assms
proof (induction cap gen exec signal init cs app rule: step_loop.induct)
  case (1 cap gen exec signal init cs app)
  note na = "1.prems"(1)
  from "1.prems"(2) obtain out' where Some: "gen (init @ app) = Some out'"
    and tc: "tool_calls out' \<noteq> []" by blast
  from "1.prems"(3) obtain res where res: "those (map exec (tool_calls out')) = Some res"
    using those_map_total [of exec "tool_calls out'"] by blast
  show ?case
  proof (cases "cap \<le> Suc (length cs)")
    case True
    with na Some res "1.prems"(4) show ?thesis by auto
  next
    case False
    with tc have c: "\<not> (tool_calls out' = [] \<or> cap \<le> Suc (length cs))" by simp
    from False have "length (cs @ [init @ app]) < cap" by simp
    from "1.IH" [OF na Some res c "1.prems"(1,2,3) this] na Some res c show ?thesis by auto
  qed
qed

lemma step_loop_last_content:
  assumes "\<not> aborted signal" "\<forall>c. exec c \<noteq> None"
    "gen (last (calls (step_loop cap gen exec signal init cs app))) = Some out"
  shows "outcome (step_loop cap gen exec signal init cs app) = Final out"
  using assms
proof (induction cap gen exec signal init cs app rule: step_loop.induct)
  case (1 cap gen exec signal init cs app)
  note na = "1.prems"(1)
  show ?case
  proof (cases "gen (init @ app)")
    case None
    with na "1.prems"(3) show ?thesis by simp
  next
    case (Some out')
    from "1.prems"(2) obtain res where res: "those (map exec (tool_calls out')) = Some res"
      using those_map_total [of exec "tool_calls out'"] by blast
    show ?thesis
    proof (cases "tool_calls out' = [] \<or> cap \<le> Suc (length cs)")
      case True
      with na Some res "1.prems"(3) show ?thesis by auto
    next
      case False
      from "1.IH" [OF na Some res False "1.prems"(1,2)] "1.prems"(3) na Some res False
      show ?thesis by auto
    qed
  qed
qed

lemma step_loop_chain:
  assumes "\<not> aborted signal"
  shows "\<exists>ds. calls (step_loop cap gen exec signal init cs app) = cs @ (init @ app) # ds
          \<and> (\<forall>i. i < length ds \<longrightarrow>
                (\<exists>out res. gen (((init @ app) # ds) ! i) = Some out \<and> tool_calls out \<noteq> []
                   \<and> those (map exec (tool_calls out)) = Some res
                   \<and> ds ! i = ((init @ app) # ds) ! i @ step_messages out res))"
  using assms
proof (induction cap gen exec signal init cs app rule: step_loop.induct)
  case (1 cap gen exec signal init cs app)
  note na = "1.prems"
  show ?case
  proof (cases "gen (init @ app)")
    case None
    with na show ?thesis by simp
  next
    case (Some out)
    show ?thesis
    proof (cases "those (map exec (tool_calls out))")
      case None
      with na Some show ?thesis by simp
    next
      case res: (Some res)
      show ?thesis
      proof (cases "tool_calls out = [] \<or> cap \<le> Suc (length cs)")
        case True
        with na Some res show ?thesis by auto
      next
        case False
        define app' where "app' = app @ step_messages out res"
        from "1.IH" [OF na Some res False na] obtain ds' where
          c: "calls (step_loop cap gen exec signal init (cs @ [init @ app]) app')
              = (cs @ [init @ app]) @ (init @ app') # ds'"
          and ch: "\<forall>i. i < length ds' \<longrightarrow>
                (\<exists>out res. gen (((init @ app') # ds') ! i) = Some out \<and> tool_calls out \<noteq> []
                   \<and> those (map exec (tool_calls out)) = Some res
                   \<and> ds' ! i = ((init @ app') # ds') ! i @ step_messages out res)"
          unfolding app'_def by blast
        have unfold: "step_loop cap gen exec signal init cs app
                      = step_loop cap gen exec signal init (cs @ [init @ app]) app'"
          using na Some res False
          by (subst step_loop.simps) (simp add: app'_def del: step_loop.simps)
        have calls: "calls (step_loop cap gen exec signal init cs app)
                     = cs @ (init @ app) # ((init @ app') # ds')"
          using c unfolding unfold by (simp del: step_loop.simps)
        have "\<forall>i. i < length ((init @ app') # ds') \<longrightarrow>
                (\<exists>out res. gen (((init @ app) # (init @ app') # ds') ! i) = Some out \<and> tool_calls out \<noteq> []
                   \<and> those (map exec (tool_calls out)) = Some res
                   \<and> ((init @ app') # ds') ! i
                       = ((init @ app) # (init @ app') # ds') ! i @ step_messages out res)"
        proof (intro allI impI)
          fix i assume i: "i < length ((init @ app') # ds')"
          show "\<exists>out res. gen (((init @ app) # (init @ app') # ds') ! i) = Some out \<and> tool_calls out \<noteq> []
                   \<and> those (map exec (tool_calls out)) = Some res
                   \<and> ((init @ app') # ds') ! i
                       = ((init @ app) # (init @ app') # ds') ! i @ step_messages out res"
          proof (cases i)
            case 0
            with Some res False show ?thesis by (auto simp: app'_def)
          next
            case (Suc j)
            with i have "j < length ds'" by simp
            with ch Suc show ?thesis by simp
          qed
        qed
        with calls show ?thesis by blast
      qed
    qed
  qed
qed

lemma execute_tool_answers:
  assumes "\<forall>cid. client \<lparr> toolName = js ''getUserTimezone'', toolCallId = cid \<rparr> \<noteq> None"
  shows "execute_tool (tools this) fetch client c \<noteq> None"
proof -
  obtain name cid inp where c: "c = (name, cid, inp)" by (cases c)
  show ?thesis
  proof (cases "name = js ''webSearch''")
    case True
    then show ?thesis
      by (auto simp: c tools_def split: sum.splits)
  next
    case nw: False
    show ?thesis
    proof (cases "name = js ''getUserTimezone''")
      case True
      from assms obtain tz where "client \<lparr> toolName = js ''getUserTimezone'', toolCallId = cid \<rparr> = Some tz"
        by blast
      with True nw show ?thesis
        by (simp add: c tools_def)
    next
      case False
      with nw show ?thesis by (simp add: c tools_def)
    qed
  qed
qed

text \<open>
  C2: the loop started by the request of \<open>onChatMessage\<close> issues at most 10 generation
  calls, whatever the hosted model, the provider and the client answer, and the first is
  issued on the pruned view. An ending \<open>Final out\<close> carries the content that the last
  call generated, and a transport failure is a failure of the last call. When no
  cancellation is raised and the client answers the calls it owns, the content generated
  by the last call is the final answer, also when the bound of 10 ended the loop; and
  when every step asks for a tool, the run ends after exactly 10 calls with a final
  answer. Every call but the last generated a step that asked for tools; its tool calls
  were all executed, and the next call was issued on the messages of this one followed
  by the content and the results of the step.
\<close>

theorem step_cap:
  assumes "r = streamText (snd (onChatMessage conv this sig)) gen fetch client"
  shows "length (calls r) \<le> 10
       \<and> (calls r \<noteq> [] \<longrightarrow>
            hd (calls r) = pruneMessages (BeforeLastMessages 2) (conv (messages this)))
       \<and> (\<forall>out. outcome r = Final out \<longrightarrow> calls r \<noteq> [] \<and> gen (last (calls r)) = Some out)
       \<and> (outcome r = TransportFailure \<longrightarrow> calls r \<noteq> [] \<and> gen (last (calls r)) = None)
       \<and> (\<not> aborted sig
            \<and> (\<forall>cid. client \<lparr> toolName = js ''getUserTimezone'', toolCallId = cid \<rparr> \<noteq> None)
          \<longrightarrow> (\<forall>out. gen (last (calls r)) = Some out \<longrightarrow> outcome r = Final out))
       \<and> (\<not> aborted sig \<and> (\<forall>h. gen h \<noteq> None)
            \<and> (\<forall>cid. client \<lparr> toolName = js ''getUserTimezone'', toolCallId = cid \<rparr> \<noteq> None)
          \<longrightarrow> (\<exists>out. outcome r = Final out))
       \<and> (\<not> aborted sig \<and> (\<forall>h. \<exists>out. gen h = Some out \<and> tool_calls out \<noteq> [])
            \<and> (\<forall>cid. client \<lparr> toolName = js ''getUserTimezone'', toolCallId = cid \<rparr> \<noteq> None)
          \<longrightarrow> length (calls r) = 10 \<and> (\<exists>out. outcome r = Final out))
       \<and> (\<forall>i. Suc i < length (calls r) \<longrightarrow>
            (\<exists>out res. gen (calls r ! i) = Some out \<and> tool_calls out \<noteq> []
               \<and> those (map (execute_tool (tools this) fetch client) (tool_calls out)) = Some res
               \<and> calls r ! Suc i = calls r ! i @ step_messages out res))"
proof -
  define exec where "exec = execute_tool (tools this) fetch client"
  define init where "init = pruneMessages (BeforeLastMessages 2) (conv (messages this))"
  have r: "r = step_loop 10 gen exec sig init [] []"
    by (simp add: assms streamText_def onChatMessage_def exec_def init_def)
  have a: "length (calls r) \<le> 10"
    using step_loop_calls_bound [of 10 gen exec sig init "[]" "[]"] r by simp
  have b: "calls r \<noteq> [] \<longrightarrow> hd (calls r) = init"
  proof (cases "aborted sig")
    case True
    then show ?thesis by (simp add: r)
  next
    case False
    from step_loop_first_call [OF False, of 10 gen exec init "[]" "[]"] r
    show ?thesis by auto
  qed
  have c: "\<forall>out. outcome r = Final out \<longrightarrow> calls r \<noteq> [] \<and> gen (last (calls r)) = Some out"
    using step_loop_final [of 10 gen exec sig init "[]" "[]"] r by blast
  have d: "outcome r = TransportFailure \<longrightarrow> calls r \<noteq> [] \<and> gen (last (calls r)) = None"
    using step_loop_failure [of 10 gen exec sig init "[]" "[]"] r by blast
  have l: "\<not> aborted sig
            \<and> (\<forall>cid. client \<lparr> toolName = js ''getUserTimezone'', toolCallId = cid \<rparr> \<noteq> None)
          \<longrightarrow> (\<forall>out. gen (last (calls r)) = Some out \<longrightarrow> outcome r = Final out)"
  proof (intro impI allI)
    fix out
    assume h: "\<not> aborted sig
            \<and> (\<forall>cid. client \<lparr> toolName = js ''getUserTimezone'', toolCallId = cid \<rparr> \<noteq> None)"
      and g: "gen (last (calls r)) = Some out"
    from h have x: "\<forall>c. exec c \<noteq> None"
      unfolding exec_def using execute_tool_answers by blast
    from h have na: "\<not> aborted sig" by simp
    from g have "gen (last (calls (step_loop 10 gen exec sig init [] []))) = Some out"
      by (simp add: r)
    from step_loop_last_content
           [where gen = gen and exec = exec and signal = sig and cap = 10 and init = init
              and cs = "[]" and app = "[]" and out = out, OF na x this]
    show "outcome r = Final out"
      by (simp add: r)
  qed
  have e: "\<not> aborted sig \<and> (\<forall>h. gen h \<noteq> None)
            \<and> (\<forall>cid. client \<lparr> toolName = js ''getUserTimezone'', toolCallId = cid \<rparr> \<noteq> None)
          \<longrightarrow> (\<exists>out. outcome r = Final out)"
  proof
    assume h: "\<not> aborted sig \<and> (\<forall>h. gen h \<noteq> None)
            \<and> (\<forall>cid. client \<lparr> toolName = js ''getUserTimezone'', toolCallId = cid \<rparr> \<noteq> None)"
    then have x: "\<forall>c. exec c \<noteq> None"
      unfolding exec_def using execute_tool_answers by blast
    from h have "\<not> aborted sig" "\<forall>h. gen h \<noteq> None" by simp_all
    from step_loop_completes [OF this x, of 10 init "[]" "[]"] r
    show "\<exists>out. outcome r = Final out" by simp
  qed
  have f: "\<not> aborted sig \<and> (\<forall>h. \<exists>out. gen h = Some out \<and> tool_calls out \<noteq> [])
            \<and> (\<forall>cid. client \<lparr> toolName = js ''getUserTimezone'', toolCallId = cid \<rparr> \<noteq> None)
          \<longrightarrow> length (calls r) = 10 \<and> (\<exists>out. outcome r = Final out)"
  proof
    assume h: "\<not> aborted sig \<and> (\<forall>h. \<exists>out. gen h = Some out \<and> tool_calls out \<noteq> [])
            \<and> (\<forall>cid. client \<lparr> toolName = js ''getUserTimezone'', toolCallId = cid \<rparr> \<noteq> None)"
    then have x: "\<forall>c. exec c \<noteq> None"
      unfolding exec_def using execute_tool_answers by blast
    from h have na: "\<not> aborted sig" and g: "\<forall>h. \<exists>out. gen h = Some out \<and> tool_calls out \<noteq> []"
      by simp_all
    from g have t: "\<forall>h. gen h \<noteq> None" by (metis option.distinct(1))
    have "length (calls r) = 10"
      using step_loop_reaches_cap [OF na g x, of "[]" 10 init "[]"] r by simp
    moreover have "\<exists>out. outcome r = Final out"
      using step_loop_completes [OF na t x, of 10 init "[]" "[]"] r by simp
    ultimately show "length (calls r) = 10 \<and> (\<exists>out. outcome r = Final out)" by simp
  qed
  have g: "\<forall>i. Suc i < length (calls r) \<longrightarrow>
            (\<exists>out res. gen (calls r ! i) = Some out \<and> tool_calls out \<noteq> []
               \<and> those (map exec (tool_calls out)) = Some res
               \<and> calls r ! Suc i = calls r ! i @ step_messages out res)"
  proof (cases "aborted sig")
    case True
    then show ?thesis by (simp add: r)
  next
    case False
    from step_loop_chain [OF False, of 10 gen exec init "[]" "[]"] obtain ds where
      ds: "calls r = init # ds"
      and ch: "\<forall>i. i < length ds \<longrightarrow>
                (\<exists>out res. gen ((init # ds) ! i) = Some out \<and> tool_calls out \<noteq> []
                   \<and> those (map exec (tool_calls out)) = Some res
                   \<and> ds ! i = (init # ds) ! i @ step_messages out res)"
      unfolding r by auto
    show ?thesis
      unfolding ds using ch by simp
  qed
  show ?thesis
    unfolding init_def [symmetric] exec_def [symmetric]
    by (intro conjI) (rule a, rule b, rule c, rule d, rule l, rule e, rule f, rule g)
qed

theorem step_cap_witness:
  "\<not> aborted None
   \<and> length (calls (streamText (snd (onChatMessage (\<lambda>ms. ms) asking_agent None)) searching_model
                      (provider (Responded 200 (Some six_results_body))) (session_channel sample_browser))) = 10
   \<and> hd (calls (streamText (snd (onChatMessage (\<lambda>ms. ms) asking_agent None)) searching_model
                      (provider (Responded 200 (Some six_results_body))) (session_channel sample_browser)))
       = [user_text (js ''Compare CRMs for a 5-person startup.'')]
   \<and> outcome (streamText (snd (onChatMessage (\<lambda>ms. ms) asking_agent None)) searching_model
                      (provider (Responded 200 (Some six_results_body))) (session_channel sample_browser))
       = Final [ToolCallPart (js ''webSearch'') (js ''call-1'') (JObj [(js ''query'', JStr (js ''crm''))])]"
proof -
  define r where "r = streamText (snd (onChatMessage (\<lambda>ms. ms) asking_agent None)) searching_model
                      (provider (Responded 200 (Some six_results_body))) (session_channel sample_browser)"
  have na: "\<not> aborted None" by simp
  have g: "\<forall>h. \<exists>out. searching_model h = Some out \<and> tool_calls out \<noteq> []"
    by (simp add: searching_model_def)
  have c: "\<forall>cid. session_channel sample_browser \<lparr> toolName = js ''getUserTimezone'', toolCallId = cid \<rparr> \<noteq> None"
    by (simp add: session_channel_def onToolCall_def)
  have m: "pruneMessages (BeforeLastMessages 2) (messages asking_agent)
           = [user_text (js ''Compare CRMs for a 5-person startup.'')]"
    by (simp add: asking_agent_def)
  note t = step_cap [OF r_def]
  note tb = t [THEN conjunct2, THEN conjunct1]
  note tc = t [THEN conjunct2, THEN conjunct2, THEN conjunct1]
  note tf = t [THEN conjunct2, THEN conjunct2, THEN conjunct2, THEN conjunct2, THEN conjunct2,
               THEN conjunct2, THEN conjunct1]
  have prem: "\<not> aborted None \<and> (\<forall>h. \<exists>out. searching_model h = Some out \<and> tool_calls out \<noteq> [])
      \<and> (\<forall>cid. session_channel sample_browser \<lparr> toolName = js ''getUserTimezone'', toolCallId = cid \<rparr> \<noteq> None)"
    by (intro conjI) (rule na, rule g, rule c)
  from tf prem have nf: "length (calls r) = 10 \<and> (\<exists>out. outcome r = Final out)"
    by (rule mp)
  then have n: "length (calls r) = 10" and f: "\<exists>out. outcome r = Final out"
    by (rule conjunct1, rule conjunct2)
  from n have ne: "calls r \<noteq> []" by auto
  with tb have "hd (calls r) = pruneMessages (BeforeLastMessages 2) (messages asking_agent)"
    by (rule mp)
  then have h: "hd (calls r) = [user_text (js ''Compare CRMs for a 5-person startup.'')]"
    by (simp only: m)
  from f obtain out where o: "outcome r = Final out" ..
  with tc have "searching_model (last (calls r)) = Some out"
    by (elim allE impE) (assumption, elim conjE)
  then have "out = [ToolCallPart (js ''webSearch'') (js ''call-1'') (JObj [(js ''query'', JStr (js ''crm''))])]"
    by (simp add: searching_model_def)
  with o n h na show ?thesis
    unfolding r_def by simp
qed

section \<open>Properties of the client\<close>

text \<open>
  C4: \<open>getUserTimezone\<close> is among the tools handed to the generation call, with the empty
  object as input schema and no \<open>execute\<close> function, while \<open>webSearch\<close> has one. On the
  client, \<open>onToolCall\<close> answers a call of that name, on an event that offers
  \<open>addToolOutput\<close>, with the id of the call, the time zone and the local time of the
  browser; it answers a call of no other name.
\<close>

theorem getUserTimezone_client_side:
  "gen_tools (snd (onChatMessage conv this sig)) = tools this
   \<and> (\<exists>td. map_of (tools this) (js ''getUserTimezone'') = Some td
            \<and> inputSchema td = ZObject [] \<and> execute_body td = None)
   \<and> (\<exists>td f. map_of (tools this) (js ''webSearch'') = Some td \<and> execute_body td = Some f)
   \<and> (has_addToolOutput event \<and> toolName (toolCall event) = js ''getUserTimezone''
        \<longrightarrow> onToolCall env event
            = Some \<lparr> output_toolCallId = toolCallId (toolCall event),
                     timezone = timeZone env, localTime = localeTime env \<rparr>)
   \<and> (toolName (toolCall event) \<noteq> js ''getUserTimezone'' \<longrightarrow> onToolCall env event = None)"
  by (simp add: onChatMessage_def tools_def onToolCall_def js_def)

theorem getUserTimezone_client_side_witness:
  "has_addToolOutput sample_event
   \<and> toolName (toolCall sample_event) = js ''getUserTimezone''
   \<and> onToolCall sample_browser sample_event
       = Some \<lparr> output_toolCallId = js ''call-7'',
                timezone = js ''Europe/Paris'', localTime = js ''14:05:09'' \<rparr>
   \<and> js ''webSearch'' \<noteq> js ''getUserTimezone''
   \<and> onToolCall sample_browser
        \<lparr> has_addToolOutput = True,
          toolCall = \<lparr> toolName = js ''webSearch'', toolCallId = js ''call-8'' \<rparr> \<rparr> = None"
proof -
  have n: "js ''webSearch'' \<noteq> js ''getUserTimezone''"
    by (simp add: js_def)
  have e: "has_addToolOutput sample_event" "toolName (toolCall sample_event) = js ''getUserTimezone''"
          "toolCallId (toolCall sample_event) = js ''call-7''"
    by (simp_all add: sample_event_def)
  have b: "timeZone sample_browser = js ''Europe/Paris''" "localeTime sample_browser = js ''14:05:09''"
    by (simp_all add: sample_browser_def)
  from getUserTimezone_client_side [of "\<lambda>ms. ms" sample_agent None sample_event sample_browser] e b
  have 1: "onToolCall sample_browser sample_event
           = Some \<lparr> output_toolCallId = js ''call-7'',
                    timezone = js ''Europe/Paris'', localTime = js ''14:05:09'' \<rparr>"
    by simp
  from getUserTimezone_client_side [of "\<lambda>ms. ms" sample_agent None
         "\<lparr> has_addToolOutput = True,
            toolCall = \<lparr> toolName = js ''webSearch'', toolCallId = js ''call-8'' \<rparr> \<rparr>" sample_browser] n
  have 2: "onToolCall sample_browser
             \<lparr> has_addToolOutput = True,
               toolCall = \<lparr> toolName = js ''webSearch'', toolCallId = js ''call-8'' \<rparr> \<rparr> = None"
    by simp
  from 1 2 n e show ?thesis by simp
qed

lemma send_while_streaming: "isStreaming st \<Longrightarrow> send st = st"
  by (simp add: send_def)

lemma click_suggestion_while_streaming: "isStreaming st \<Longrightarrow> click_suggestion prompt st = st"
  by (simp add: click_suggestion_def)

lemma send_blank: "trim (input st) = [] \<Longrightarrow> send st = st"
  by (simp add: send_def)

lemma send_accepts:
  "\<not> isStreaming st \<Longrightarrow> trim (input st) \<noteq> [] \<Longrightarrow>
   sent (send st) = sent st @ [user_text (trim (input st))] \<and> input (send st) = []"
  by (simp add: send_def Let_def)

text \<open>
  C8 (the code at the failing input): while the answer to the first message is streaming,
  \<open>send\<close> does nothing, and a click on the prompt bubble hands a second user message
  to \<open>sendMessage\<close>.
\<close>

theorem prompt_bubble_sends_while_streaming:
  "isStreaming streaming_chat
   \<and> send streaming_chat = streaming_chat
   \<and> sent (click_prompt_bubble streaming_chat)
       = [user_text (js ''Compare CRMs for a 5-person startup.''),
          user_text (js ''Research the future of electric vehicles.'')]"
  by (simp add: isStreaming_def send_def click_prompt_bubble_def streaming_chat_def)

end
